theory Spec2Isabelle
  imports Main "HOL-Library.Sublist"
begin

section \<open>Text: Python \<open>str\<close> operations used by the analysis tools\<close>

text \<open>
  A Python \<open>str\<close> is modelled as a \<open>string\<close>; a character stands for the code point
  of the same number, so the model covers text whose code points are below 256.
  \<open>isspace\<close> lists the code points below 256 that \<open>str.isspace\<close> accepts; these are the
  characters \<open>str.strip()\<close> and \<open>str.rstrip()\<close> remove and the regex class \<open>\s\<close> matches.
\<close>

definition newline :: char where
  "newline = CHR 0x0A"

definition whitespace :: "char list" where
  "whitespace = [CHR 0x09, CHR 0x0A, CHR 0x0B, CHR 0x0C, CHR 0x0D,
                 CHR 0x1C, CHR 0x1D, CHR 0x1E, CHR 0x1F, CHR 0x20, CHR 0x85, CHR 0xA0]"

definition isspace :: "char \<Rightarrow> bool" where
  "isspace c = (c \<in> set whitespace)"

definition lstrip :: "string \<Rightarrow> string" where
  "lstrip s = dropWhile isspace s"

definition rstrip :: "string \<Rightarrow> string" where
  "rstrip s = rev (dropWhile isspace (rev s))"

definition strip :: "string \<Rightarrow> string" where
  "strip s = rstrip (lstrip s)"

text \<open>\<open>s.split(sep)\<close> for a one-character separator: always at least one piece.\<close>

fun split_on :: "char \<Rightarrow> string \<Rightarrow> string list" where
  "split_on sep [] = [[]]"
| "split_on sep (c # cs) =
     (if c = sep then [] # split_on sep cs
      else (case split_on sep cs of
              [] \<Rightarrow> [[c]]
            | w # ws \<Rightarrow> (c # w) # ws))"

text \<open>\<open>sep.join(xs)\<close>.\<close>

fun join :: "string \<Rightarrow> string list \<Rightarrow> string" where
  "join sep [] = []"
| "join sep [x] = x"
| "join sep (x # y # ys) = x @ sep @ join sep (y # ys)"

text \<open>
  Iterating over a file opened in text mode yields its lines, each one keeping its
  terminating newline; only the last line may lack it.
\<close>

fun readlines_acc :: "string \<Rightarrow> string \<Rightarrow> string list" where
  "readlines_acc cur [] = (if cur = [] then [] else [rev cur])"
| "readlines_acc cur (c # cs) =
     (if c = newline then rev (c # cur) # readlines_acc [] cs
      else readlines_acc (c # cur) cs)"

definition readlines :: "string \<Rightarrow> string list" where
  "readlines text = readlines_acc [] text"

text \<open>\<open>str(n)\<close> for a non-negative integer.\<close>

definition digit_char :: "nat \<Rightarrow> char" where
  "digit_char d = ''0123456789'' ! d"

function str_nat :: "nat \<Rightarrow> string" where
  "str_nat n = (if n < 10 then [digit_char n] else str_nat (n div 10) @ [digit_char (n mod 10)])"
  by pat_completeness auto
termination
  by (relation "measure (\<lambda>n. n)") auto

declare str_nat.simps [simp del]

definition quoted :: "string \<Rightarrow> string" where
  "quoted s = [CHR 0x27] @ s @ [CHR 0x27]"

section \<open>The file system seen by one request\<close>

text \<open>
  A file either fails to open (with the message of the \<open>OSError\<close>) or holds text (already
  decoded with \<open>errors='ignore'\<close> and with newlines translated). A directory lists its
  entries in the order \<open>scandir\<close> returns them; \<open>BrokenDir\<close> is a directory whose listing
  raises an \<open>OSError\<close> other than \<open>PermissionError\<close>, and \<open>LockedDir\<close> a directory
  without any permission: listing it raises \<open>PermissionError\<close>, and so does looking
  a name up in it.
\<close>

datatype content = Unreadable string | Text string

datatype node = File content | Dir "(string \<times> node) list" | BrokenDir string | LockedDir

text \<open>A \<open>Path\<close> is the list of its components; \<open>str(path)\<close> joins them.\<close>

type_synonym path = "string list"

definition str_path :: "path \<Rightarrow> string" where
  "str_path p = (if p = [] then ''.'' else join ''/'' p)"

fun lookup_entry :: "string \<Rightarrow> (string \<times> node) list \<Rightarrow> node option" where
  "lookup_entry n [] = None"
| "lookup_entry n ((m, x) # es) = (if n = m then Some x else lookup_entry n es)"

text \<open>
  The limits of the system on a path: a component of more than 255 bytes, or a path of 4096
  bytes or more, is refused with \<open>ENAMETOOLONG\<close>. A character below 128 is one byte of
  the UTF-8 form of the path, any other character two.
\<close>

definition utf8_len :: "char \<Rightarrow> nat" where
  "utf8_len c = (if digit7 c then 2 else 1)"

definition byte_length :: "string \<Rightarrow> nat" where
  "byte_length s = sum_list (map utf8_len s)"

definition name_too_long :: "string \<Rightarrow> bool" where
  "name_too_long n = (255 < byte_length n)"

definition path_too_long :: "path \<Rightarrow> bool" where
  "path_too_long p = (4096 \<le> byte_length (str_path p))"

text \<open>The node that a path names, when the system finds one.\<close>

fun lookup_path :: "node \<Rightarrow> path \<Rightarrow> node option" where
  "lookup_path fs [] = Some fs"
| "lookup_path (Dir es) (n # p) =
     (if name_too_long n then None
      else (case lookup_entry n es of None \<Rightarrow> None | Some x \<Rightarrow> lookup_path x p))"
| "lookup_path (File c) (n # p) = None"
| "lookup_path (BrokenDir msg) (n # p) = None"
| "lookup_path LockedDir (n # p) = None"

definition resolve :: "node \<Rightarrow> path \<Rightarrow> node option" where
  "resolve fs p = (if path_too_long p then None else lookup_path fs p)"

text \<open>
  \<open>stat\<close> of a path, as \<open>Path.is_dir()\<close>, \<open>Path.is_file()\<close> and \<open>Path.exists()\<close> use
  it: these answer \<open>False\<close> when the path is missing or passes through a regular file
  (\<open>ENOENT\<close>, \<open>ENOTDIR\<close>), and raise the \<open>OSError\<close> in every other case: a name or path
  that is too long, a directory on the way that may not be searched or that fails.
  \<open>stat_error\<close> is the text of the error raised, if any.
\<close>

fun stat_fault :: "node \<Rightarrow> path \<Rightarrow> string option" where
  "stat_fault fs [] = None"
| "stat_fault (Dir es) (n # p) =
     (if name_too_long n then Some ''[Errno 36] File name too long''
      else (case lookup_entry n es of None \<Rightarrow> None | Some x \<Rightarrow> stat_fault x p))"
| "stat_fault (File c) (n # p) = None"
| "stat_fault (BrokenDir msg) (n # p) = Some msg"
| "stat_fault LockedDir (n # p) = Some ''[Errno 13] Permission denied''"

definition stat_error :: "node \<Rightarrow> path \<Rightarrow> string option" where
  "stat_error fs p =
     map_option (\<lambda>m. m @ '': '' @ quoted (str_path p))
       (if path_too_long p then Some ''[Errno 36] File name too long'' else stat_fault fs p)"

fun is_file :: "node \<Rightarrow> bool" where
  "is_file (File c) = True"
| "is_file (Dir es) = False"
| "is_file (BrokenDir msg) = False"
| "is_file LockedDir = False"

fun is_dir :: "node \<Rightarrow> bool" where
  "is_dir (File c) = False"
| "is_dir (Dir es) = True"
| "is_dir (BrokenDir msg) = True"
| "is_dir LockedDir = True"

text \<open>
  \<open>Path.exists()\<close>, once \<open>stat\<close> has not raised, and \<open>open(path)\<close>. Opening a directory
  raises \<open>IsADirectoryError\<close> or \<open>PermissionError\<close>, opening a missing path
  \<open>FileNotFoundError\<close>.
\<close>

definition exists_path :: "node \<Rightarrow> path \<Rightarrow> bool" where
  "exists_path fs p = (resolve fs p \<noteq> None)"

definition open_file :: "node \<Rightarrow> path \<Rightarrow> string + string" where
  "open_file fs p =
     (case resolve fs p of
        None \<Rightarrow> Inl (''[Errno 2] No such file or directory: '' @ quoted (str_path p))
      | Some (File (Text t)) \<Rightarrow> Inr t
      | Some (File (Unreadable msg)) \<Rightarrow> Inl msg
      | Some (Dir es) \<Rightarrow> Inl (''[Errno 21] Is a directory: '' @ quoted (str_path p))
      | Some (BrokenDir msg) \<Rightarrow> Inl (''[Errno 21] Is a directory: '' @ quoted (str_path p))
      | Some LockedDir \<Rightarrow> Inl (''[Errno 13] Permission denied: '' @ quoted (str_path p)))"

text \<open>
  \<open>Path.rglob("*")\<close>, as pathlib walks: the directories below the root in pre-order, and for
  each one all of its entries (files and directories) in listing order. The walk is lazy, so
  the result is the entries yielded and, when a listing raised, the error that ended the
  walk. A directory that may not be listed is passed over. \<open>rglob\<close> first asks
  \<open>is_dir()\<close> of the root: when \<open>stat\<close> of the root raises, so does the walk, before it
  yields anything; a root that is missing or is not a directory yields nothing and raises
  nothing.
\<close>

fun walk :: "path \<Rightarrow> node \<Rightarrow> (path \<times> node) list \<times> string option"
  and walk_subdirs :: "path \<Rightarrow> (string \<times> node) list \<Rightarrow> (path \<times> node) list \<times> string option"
  where
  "walk p (File c) = ([], None)"
| "walk p (BrokenDir msg) = ([], Some msg)"
| "walk p LockedDir = ([], None)"
| "walk p (Dir es) =
     (case walk_subdirs p es of
        (below, err) \<Rightarrow> (map (\<lambda>(n, x). (p @ [n], x)) es @ below, err))"
| "walk_subdirs p [] = ([], None)"
| "walk_subdirs p ((n, x) # es) =
     (if is_dir x then
        (case walk (p @ [n]) x of
           (ys, Some e) \<Rightarrow> (ys, Some e)
         | (ys, None) \<Rightarrow> (case walk_subdirs p es of (zs, err) \<Rightarrow> (ys @ zs, err)))
      else walk_subdirs p es)"

definition rglob_all :: "node \<Rightarrow> path \<Rightarrow> (path \<times> node) list \<times> string option" where
  "rglob_all fs directory =
     (case stat_error fs directory of
        Some e \<Rightarrow> ([], Some e)
      | None \<Rightarrow>
          (case resolve fs directory of
             None \<Rightarrow> ([], None)
           | Some x \<Rightarrow> walk directory x))"

text \<open>\<open>PurePath.suffix\<close> of a file name: from the last dot, unless that dot is first or last.\<close>

fun rfind :: "char \<Rightarrow> string \<Rightarrow> nat option" where
  "rfind c [] = None"
| "rfind c (x # xs) =
     (case rfind c xs of
        Some i \<Rightarrow> Some (Suc i)
      | None \<Rightarrow> (if x = c then Some 0 else None))"

definition suffix_of :: "string \<Rightarrow> string" where
  "suffix_of name =
     (case rfind (CHR ''.'') name of
        None \<Rightarrow> []
      | Some i \<Rightarrow> (if 0 < i \<and> i + 1 < length name then drop i name else []))"

definition path_name :: "path \<Rightarrow> string" where
  "path_name p = (if p = [] then [] else last p)"

definition path_suffix :: "path \<Rightarrow> string" where
  "path_suffix p = suffix_of (path_name p)"

section \<open>Extension filter\<close>

text \<open>
  \<open>[ext.strip() for ext in file_extensions.split(",")] if file_extensions else None\<close>
\<close>

definition parse_extensions :: "string option \<Rightarrow> string list option" where
  "parse_extensions file_extensions =
     (case file_extensions of
        None \<Rightarrow> None
      | Some s \<Rightarrow> (if s = [] then None else Some (map strip (split_on (CHR '','') s))))"

text \<open>\<open>extensions and file_path.suffix[1:] not in extensions\<close>: the file is skipped.\<close>

definition filtered_out :: "string list option \<Rightarrow> path \<Rightarrow> bool" where
  "filtered_out extensions file_path =
     (case extensions of
        None \<Rightarrow> False
      | Some exts \<Rightarrow> exts \<noteq> [] \<and> drop 1 (path_suffix file_path) \<notin> set exts)"

section \<open>count_lines_of_code\<close>

text \<open>
  A \<open>Counter\<close> keeps its keys in insertion order; \<open>stats[k] += n\<close> adds to the entry of
  \<open>k\<close> or appends a new one.
\<close>

fun counter_add :: "'k \<Rightarrow> nat \<Rightarrow> ('k \<times> nat) list \<Rightarrow> ('k \<times> nat) list" where
  "counter_add k n [] = [(k, n)]"
| "counter_add k n ((k', v) # kvs) =
     (if k = k' then (k', v + n) # kvs else (k', v) # counter_add k n kvs)"

record line_count_summary =
  total_files :: nat
  total_lines :: nat
  by_extension :: "(string \<times> nat) list"

text \<open>
  One iteration of the loop over \<open>path.rglob("*")\<close>. A file that fails to open is skipped
  by the bare \<open>except\<close>; nothing was updated for it.
\<close>

definition count_file :: "string list option \<Rightarrow> path \<times> node \<Rightarrow> line_count_summary \<Rightarrow> line_count_summary" where
  "count_file extensions entry acc =
     (case entry of
        (file_path, File c) \<Rightarrow>
          (if filtered_out extensions file_path then acc
           else (case c of
                   Unreadable msg \<Rightarrow> acc
                 | Text t \<Rightarrow>
                     (let lines = length (readlines t);
                          ext = (if drop 1 (path_suffix file_path) = [] then ''no extension''
                                 else drop 1 (path_suffix file_path))
                      in \<lparr> total_files = total_files acc + 1,
                           total_lines = total_lines acc + lines,
                           by_extension = counter_add ext lines (by_extension acc) \<rparr>)))
      | (file_path, _) \<Rightarrow> acc)"

fun count_loop :: "string list option \<Rightarrow> (path \<times> node) list \<Rightarrow> line_count_summary \<Rightarrow> line_count_summary" where
  "count_loop extensions [] acc = acc"
| "count_loop extensions (entry # rest) acc =
     count_loop extensions rest (count_file extensions entry acc)"

text \<open>
  The result is the dictionary handed to \<open>json.dumps\<close> (\<open>Inr\<close>), or the text
  \<open>Error counting lines: ...\<close> of the outer handler (\<open>Inl\<close>).
\<close>

definition count_lines_of_code :: "node \<Rightarrow> path \<Rightarrow> string option \<Rightarrow> string + line_count_summary" where
  "count_lines_of_code fs directory file_extensions =
     (let extensions = parse_extensions file_extensions in
      case rglob_all fs directory of
        (entries, Some e) \<Rightarrow> Inl (''Error counting lines: '' @ e)
      | (entries, None) \<Rightarrow>
          Inr (count_loop extensions entries
                 \<lparr> total_files = 0, total_lines = 0, by_extension = [] \<rparr>))"

section \<open>search_code\<close>

text \<open>
  The regular-expression library is a parameter: \<open>re pattern\<close> is \<open>None\<close> when compiling
  \<open>pattern\<close> raises \<open>re.error\<close>, and otherwise the predicate
  \<open>\<lambda>line. re.search(pattern, line, re.IGNORECASE) is not None\<close>.
\<close>

type_synonym regex = "string \<Rightarrow> (string \<Rightarrow> bool) option"

record hit =
  hit_path :: path
  hit_line :: nat
  hit_text :: string

text \<open>\<open>f"{file_path}:{line_num}: {line.strip()}"\<close>\<close>

definition format_hit :: "hit \<Rightarrow> string" where
  "format_hit h = str_path (hit_path h) @ '':'' @ str_nat (hit_line h) @ '': '' @ hit_text h"

text \<open>
  The loop over \<open>enumerate(f, 1)\<close>. \<open>re.search\<close> compiles the pattern at each call; for an
  invalid pattern it raises at the first line, the bare \<open>except\<close> around the file catches
  the error and the loop over the files goes on with what \<open>results\<close> held.
\<close>

fun search_lines :: "regex \<Rightarrow> string \<Rightarrow> path \<Rightarrow> nat \<Rightarrow> string list \<Rightarrow> hit list \<Rightarrow> hit list" where
  "search_lines re pattern file_path line_num [] results = results"
| "search_lines re pattern file_path line_num (line # rest) results =
     (case re pattern of
        None \<Rightarrow> results
      | Some matches \<Rightarrow>
          search_lines re pattern file_path (line_num + 1) rest
            (if matches line
             then results @ [\<lparr> hit_path = file_path, hit_line = line_num, hit_text = strip line \<rparr>]
             else results))"

text \<open>
  One iteration of the loop over \<open>path.rglob("*")\<close>. The state is \<open>results\<close> and the log
  of the paths given to \<open>open\<close>.
\<close>

definition search_file ::
  "regex \<Rightarrow> string \<Rightarrow> string list option \<Rightarrow> path \<times> node \<Rightarrow> hit list \<times> path list \<Rightarrow> hit list \<times> path list" where
  "search_file re pattern extensions entry st =
     (case entry of
        (file_path, File c) \<Rightarrow>
          (if filtered_out extensions file_path then st
           else (case c of
                   Unreadable msg \<Rightarrow> (fst st, snd st @ [file_path])
                 | Text t \<Rightarrow>
                     (search_lines re pattern file_path 1 (readlines t) (fst st),
                      snd st @ [file_path])))
      | (file_path, _) \<Rightarrow> st)"

fun search_loop ::
  "regex \<Rightarrow> string \<Rightarrow> string list option \<Rightarrow> (path \<times> node) list \<Rightarrow> hit list \<times> path list \<Rightarrow> hit list \<times> path list" where
  "search_loop re pattern extensions [] st = st"
| "search_loop re pattern extensions (entry # rest) st =
     search_loop re pattern extensions rest (search_file re pattern extensions entry st)"

text \<open>The body of the outer \<open>try\<close> up to the end of the loop: \<open>results\<close>, the files opened,
  and the error of the walk if it raised.\<close>

definition search_run ::
  "regex \<Rightarrow> string \<Rightarrow> node \<Rightarrow> path \<Rightarrow> string option \<Rightarrow> (hit list \<times> path list) \<times> string option" where
  "search_run re pattern fs directory file_extensions =
     (let extensions = parse_extensions file_extensions in
      case rglob_all fs directory of
        (entries, err) \<Rightarrow> (search_loop re pattern extensions entries ([], []), err))"

text \<open>The returned text, and the log of the files opened on the way.\<close>

definition search_code ::
  "regex \<Rightarrow> string \<Rightarrow> node \<Rightarrow> path \<Rightarrow> string option \<Rightarrow> string \<times> path list" where
  "search_code re pattern fs directory file_extensions =
     (case search_run re pattern fs directory file_extensions of
        ((results, opened), Some e) \<Rightarrow> (''Error searching code: '' @ e, opened)
      | ((results, opened), None) \<Rightarrow>
          (if results \<noteq> []
           then join [newline] (map format_hit (take 100 results))
           else ''No matches found for pattern '' @ quoted pattern,
           opened))"

text \<open>Every failure is reported as a text that starts with \<open>Error\<close>.\<close>

definition is_error_text :: "string \<Rightarrow> bool" where
  "is_error_text s = prefix ''Error'' s"

section \<open>find_files\<close>

text \<open>
  The glob matcher of pathlib is a parameter: \<open>glob pattern\<close> is \<open>Inl msg\<close> when
  \<open>rglob(pattern)\<close> rejects the pattern (before it looks at the directory), and otherwise
  tells which of the walked paths the pattern selects below a root.
\<close>

type_synonym globber = "string \<Rightarrow> string + (path \<Rightarrow> path \<Rightarrow> bool)"

definition find_files :: "globber \<Rightarrow> string \<Rightarrow> node \<Rightarrow> path \<Rightarrow> string" where
  "find_files glob pattern fs directory =
     (case glob pattern of
        Inl msg \<Rightarrow> ''Error finding files: '' @ msg
      | Inr selects \<Rightarrow>
          (case rglob_all fs directory of
             (entries, Some e) \<Rightarrow> ''Error finding files: '' @ e
           | (entries, None) \<Rightarrow>
               (let matches = map (\<lambda>(file_path, x). str_path file_path)
                                (filter (\<lambda>(file_path, x). selects directory file_path \<and> is_file x)
                                   entries)
                in if matches \<noteq> [] then join [newline] matches
                   else ''No files found matching '' @ quoted pattern)))"

section \<open>find_todos\<close>

text \<open>
  Case conversion of the ASCII letters. \<open>lower\<close> is only used to compare a character
  with a character of an ASCII literal under \<open>re.IGNORECASE\<close>, and \<open>upper\<close> only on
  the matched marker word, which consists of ASCII letters.
\<close>

definition ascii_uppercase :: string where
  "ascii_uppercase = ''ABCDEFGHIJKLMNOPQRSTUVWXYZ''"

definition ascii_lowercase :: string where
  "ascii_lowercase = ''abcdefghijklmnopqrstuvwxyz''"

definition lower :: "char \<Rightarrow> char" where
  "lower c = (case map_of (zip ascii_uppercase ascii_lowercase) c of None \<Rightarrow> c | Some d \<Rightarrow> d)"

definition upper :: "char \<Rightarrow> char" where
  "upper c = (case map_of (zip ascii_lowercase ascii_uppercase) c of None \<Rightarrow> c | Some d \<Rightarrow> d)"

text \<open>A literal matched at the start of \<open>s\<close> under \<open>re.IGNORECASE\<close>.\<close>

definition prefix_ci :: "string \<Rightarrow> string \<Rightarrow> bool" where
  "prefix_ci lit s = (length lit \<le> length s \<and> map lower (take (length lit) s) = map lower lit)"

text \<open>\<open>(.+)\<close> at the start of \<open>s\<close>: greedy, and \<open>.\<close> does not match a newline.\<close>

definition dot_plus :: "string \<Rightarrow> string option" where
  "dot_plus s = (let g = takeWhile (\<lambda>c. c \<noteq> newline) s in if g = [] then None else Some g)"

text \<open>\<open>\s*(.+)\<close> at the start of \<open>s\<close>, with the backtracking of \<open>\s*\<close>; the result is group 2.\<close>

fun match_tail :: "string \<Rightarrow> string option" where
  "match_tail [] = None"
| "match_tail (c # cs) =
     (if isspace c
      then (case match_tail cs of Some g \<Rightarrow> Some g | None \<Rightarrow> dot_plus (c # cs))
      else dot_plus (c # cs))"

definition markers :: "string list" where
  "markers = [''TODO'', ''FIXME'', ''NOTE'', ''XXX'', ''HACK'']"

text \<open>\<open>(TODO|FIXME|NOTE|XXX|HACK):\s*(.+)\<close> matched at the start of \<open>s\<close>: groups 1 and 2.\<close>

fun marker_alternatives :: "string list \<Rightarrow> string \<Rightarrow> (string \<times> string) option" where
  "marker_alternatives [] s = None"
| "marker_alternatives (kw # kws) s =
     (if prefix_ci (kw @ '':'') s
      then (case match_tail (drop (length kw + 1) s) of
              Some g \<Rightarrow> Some (take (length kw) s, g)
            | None \<Rightarrow> marker_alternatives kws s)
      else marker_alternatives kws s)"

text \<open>\<open>pattern.search(line)\<close>: the leftmost position where the pattern matches.\<close>

fun marker_search :: "string \<Rightarrow> (string \<times> string) option" where
  "marker_search [] = marker_alternatives markers []"
| "marker_search (c # cs) =
     (case marker_alternatives markers (c # cs) of
        Some m \<Rightarrow> Some m
      | None \<Rightarrow> marker_search cs)"

definition source_suffixes :: "string list" where
  "source_suffixes = [''.py'', ''.js'', ''.ts'', ''.java'', ''.cpp'', ''.c'', ''.go'', ''.rs'', ''.rb'', ''.php'']"

text \<open>\<open>f"{file_path}:{line_num} - {match.group(1).upper()}: {match.group(2).strip()}"\<close>\<close>

definition format_todo :: "path \<Rightarrow> nat \<Rightarrow> string \<times> string \<Rightarrow> string" where
  "format_todo file_path line_num m =
     str_path file_path @ '':'' @ str_nat line_num @ '' - '' @ map upper (fst m) @ '': '' @ strip (snd m)"

fun todo_lines :: "path \<Rightarrow> nat \<Rightarrow> string list \<Rightarrow> string list \<Rightarrow> string list" where
  "todo_lines file_path line_num [] todos = todos"
| "todo_lines file_path line_num (line # rest) todos =
     todo_lines file_path (line_num + 1) rest
       (case marker_search line of
          Some m \<Rightarrow> todos @ [format_todo file_path line_num m]
        | None \<Rightarrow> todos)"

definition todo_file :: "path \<times> node \<Rightarrow> string list \<Rightarrow> string list" where
  "todo_file entry todos =
     (case entry of
        (file_path, File c) \<Rightarrow>
          (if path_suffix file_path \<in> set source_suffixes
           then (case c of
                   Unreadable msg \<Rightarrow> todos
                 | Text t \<Rightarrow> todo_lines file_path 1 (readlines t) todos)
           else todos)
      | (file_path, _) \<Rightarrow> todos)"

fun todo_loop :: "(path \<times> node) list \<Rightarrow> string list \<Rightarrow> string list" where
  "todo_loop [] todos = todos"
| "todo_loop (entry # rest) todos = todo_loop rest (todo_file entry todos)"

definition find_todos :: "node \<Rightarrow> path \<Rightarrow> string" where
  "find_todos fs directory =
     (case rglob_all fs directory of
        (entries, Some e) \<Rightarrow> ''Error finding TODOs: '' @ e
      | (entries, None) \<Rightarrow>
          (let todos = todo_loop entries []
           in if todos \<noteq> [] then join [newline] todos else ''No TODOs/FIXMEs found''))"

section \<open>find_duplicate_lines\<close>

text \<open>\<open>[line.rstrip() for line in f if len(line.strip()) >= min_length]\<close>\<close>

definition candidate_lines :: "string \<Rightarrow> int \<Rightarrow> string list" where
  "candidate_lines text min_length =
     map rstrip (filter (\<lambda>line. int (length (strip line)) \<ge> min_length) (readlines text))"

text \<open>\<open>Counter(lines)\<close>: the keys are in the order of their first occurrence.\<close>

fun counter_of_acc :: "'k list \<Rightarrow> ('k \<times> nat) list \<Rightarrow> ('k \<times> nat) list" where
  "counter_of_acc [] acc = acc"
| "counter_of_acc (x # xs) acc = counter_of_acc xs (counter_add x 1 acc)"

definition counter_of :: "'k list \<Rightarrow> ('k \<times> nat) list" where
  "counter_of xs = counter_of_acc xs []"

text \<open>
  \<open>sorted(items, key=lambda x: x[1], reverse=True)\<close>: Python's sort is stable, also with
  \<open>reverse=True\<close>, so items of equal count keep their order.
\<close>

definition sorted_by_count_desc :: "('k \<times> nat) list \<Rightarrow> ('k \<times> nat) list" where
  "sorted_by_count_desc items = sort_key (\<lambda>x. - int (snd x)) items"

definition duplicate_groups :: "string \<Rightarrow> int \<Rightarrow> (string \<times> nat) list" where
  "duplicate_groups text min_length =
     sorted_by_count_desc
       (filter (\<lambda>(line, count). count > 1) (counter_of (candidate_lines text min_length)))"

text \<open>\<open>f"({count}x) {line[:80]}..."\<close>\<close>

definition format_group :: "string \<times> nat \<Rightarrow> string" where
  "format_group g = ''('' @ str_nat (snd g) @ ''x) '' @ take 80 (fst g) @ ''...''"

definition find_duplicate_lines :: "node \<Rightarrow> path \<Rightarrow> int \<Rightarrow> string" where
  "find_duplicate_lines fs file_path min_length =
     (case stat_error fs file_path of
        Some e \<Rightarrow> ''Error finding duplicates: '' @ e
      | None \<Rightarrow>
          (if \<not> exists_path fs file_path
           then ''Error: File '' @ quoted (str_path file_path) @ '' not found''
           else (case open_file fs file_path of
                   Inl msg \<Rightarrow> ''Error finding duplicates: '' @ msg
                 | Inr text \<Rightarrow>
                     (let groups = duplicate_groups text min_length
                      in if groups \<noteq> []
                         then join [newline] (take 20 (map format_group groups))
                         else ''No duplicate lines found''))))"

section \<open>extract_imports\<close>

text \<open>\<open>.+lit\<close> at the start of \<open>s\<close>: at least one character, none of them a newline, then \<open>lit\<close>.\<close>

fun dot_plus_then :: "string \<Rightarrow> string \<Rightarrow> bool" where
  "dot_plus_then lit [] = False"
| "dot_plus_then lit (c # cs) = (c \<noteq> newline \<and> (prefix lit cs \<or> dot_plus_then lit cs))"

text \<open>\<open>re.match(r'^(import |from .+ import )', s)\<close>\<close>

definition python_import :: "string \<Rightarrow> bool" where
  "python_import s =
     (prefix ''import '' s \<or> (prefix ''from '' s \<and> dot_plus_then '' import '' (drop 5 s)))"

text \<open>\<open>re.match(r'^(import |const .+ = require\(|var .+ = require\()', s)\<close>\<close>

definition js_import :: "string \<Rightarrow> bool" where
  "js_import s =
     (prefix ''import '' s
      \<or> (prefix ''const '' s \<and> dot_plus_then '' = require('' (drop 6 s))
      \<or> (prefix ''var '' s \<and> dot_plus_then '' = require('' (drop 4 s)))"

fun import_lines :: "string list \<Rightarrow> string list \<Rightarrow> string list" where
  "import_lines [] imports = imports"
| "import_lines (line # rest) imports =
     import_lines rest
       (if python_import (strip line) then imports @ [strip line]
        else if js_import (strip line) then imports @ [strip line]
        else imports)"

definition extract_imports :: "node \<Rightarrow> path \<Rightarrow> string" where
  "extract_imports fs file_path =
     (case stat_error fs file_path of
        Some e \<Rightarrow> ''Error extracting imports: '' @ e
      | None \<Rightarrow>
          (if \<not> exists_path fs file_path
           then ''Error: File '' @ quoted (str_path file_path) @ '' not found''
           else (case open_file fs file_path of
                   Inl msg \<Rightarrow> ''Error extracting imports: '' @ msg
                 | Inr text \<Rightarrow>
                     (let imports = import_lines (readlines text) []
                      in if imports \<noteq> [] then join [newline] imports
                         else ''No imports found''))))"

section \<open>An instance of the regex parameter for the examples\<close>

text \<open>
  \<open>literal_re\<close> knows the patterns made of letters, digits and spaces only; such a pattern
  matches a line when it occurs in it, letters compared without case. Every other
  pattern is taken as invalid here; the examples use it on \<open>(\<close>, which \<open>re\<close> rejects, and on
  plain words.
\<close>

definition plain_char :: "char \<Rightarrow> bool" where
  "plain_char c = (c \<in> set (ascii_uppercase @ ascii_lowercase @ ''0123456789 ''))"

fun occurs_ci :: "string \<Rightarrow> string \<Rightarrow> bool" where
  "occurs_ci lit [] = (lit = [])"
| "occurs_ci lit (c # cs) = (prefix_ci lit (c # cs) \<or> occurs_ci lit cs)"

definition literal_re :: regex where
  "literal_re pattern =
     (if list_all plain_char pattern then Some (occurs_ci pattern) else None)"

section \<open>Examples and auxiliary notions for the statements\<close>

text \<open>\<open>sum(by_extension.values())\<close>\<close>

definition sum_values :: "('k \<times> nat) list \<Rightarrow> nat" where
  "sum_values kvs = sum_list (map snd kvs)"

text \<open>\<open>Path.is_dir()\<close>: the path exists and is a directory.\<close>

definition is_dir_path :: "node \<Rightarrow> path \<Rightarrow> bool" where
  "is_dir_path fs p = (case resolve fs p of None \<Rightarrow> False | Some x \<Rightarrow> is_dir x)"

text \<open>A small tree: two files at the top, two more in a subdirectory.\<close>

definition example_tree :: node where
  "example_tree =
     Dir [(''a.py'', File (Text (''  Foo bar'' @ [newline] @ ''x = 1'' @ [newline]))),
          (''sub'', Dir [(''b.cpp'', File (Text (''// TODO: fix this'' @ [newline]))),
                         (''README'', File (Text ''foo''))]),
          (''c.md'', File (Text ''// TODO: fix this''))]"

text \<open>A name of 300 bytes, and a tree with a directory that may not be searched.\<close>

definition long_name :: string where
  "long_name = replicate 300 (CHR ''a'')"

definition locked_tree :: node where
  "locked_tree = Dir [(''vault'', LockedDir)]"

text \<open>The files the loop opens: regular files that pass the extension filter.\<close>

definition candidate :: "string list option \<Rightarrow> path \<times> node \<Rightarrow> bool" where
  "candidate extensions entry = (is_file (snd entry) \<and> \<not> filtered_out extensions (fst entry))"



text \<open>The hits of one file, by line number, and of one walked entry.\<close>

definition hits_from :: "regex \<Rightarrow> string \<Rightarrow> path \<Rightarrow> nat \<Rightarrow> string list \<Rightarrow> hit list" where
  "hits_from re pattern file_path n lines =
     (case re pattern of
        None \<Rightarrow> []
      | Some matches \<Rightarrow>
          map (\<lambda>(i, line). \<lparr> hit_path = file_path, hit_line = i, hit_text = strip line \<rparr>)
            (filter (\<lambda>(i, line). matches line) (enumerate n lines)))"

definition entry_hits :: "regex \<Rightarrow> string \<Rightarrow> string list option \<Rightarrow> path \<times> node \<Rightarrow> hit list" where
  "entry_hits re pattern extensions entry =
     (case entry of
        (file_path, File (Text t)) \<Rightarrow>
          (if filtered_out extensions file_path then []
           else hits_from re pattern file_path 1 (readlines t))
      | _ \<Rightarrow> [])"

text \<open>The hits of a walk, each with the position of its file in the walk.\<close>

fun tagged_hits :: "regex \<Rightarrow> string \<Rightarrow> string list option \<Rightarrow> nat \<Rightarrow> (path \<times> node) list \<Rightarrow> (nat \<times> hit) list" where
  "tagged_hits re pattern extensions k [] = []"
| "tagged_hits re pattern extensions k (entry # rest) =
     map (Pair k) (entry_hits re pattern extensions entry)
     @ tagged_hits re pattern extensions (Suc k) rest"

definition visit_order :: "nat \<times> nat \<Rightarrow> nat \<times> nat \<Rightarrow> bool" where
  "visit_order a b = (fst a < fst b \<or> (fst a = fst b \<and> snd a < snd b))"


definition import_example :: string where
  "import_example = ''import os'' @ [newline] @ ''    x = 1'' @ [newline] @ ''from foo import bar''"

text \<open>A file with one line of ten characters, twice.\<close>

definition short_duplicates :: string where
  "short_duplicates = ''0123456789'' @ [newline] @ ''0123456789'' @ [newline]"

text \<open>The position of the first occurrence of \<open>x\<close> in \<open>xs\<close>.\<close>

definition first_index :: "'a list \<Rightarrow> 'a \<Rightarrow> nat" where
  "first_index xs x = length (takeWhile (\<lambda>y. y \<noteq> x) xs)"

text \<open>Higher count first; among equal counts, the line that occurs first in the file.\<close>

definition group_order :: "string list \<Rightarrow> string \<times> nat \<Rightarrow> string \<times> nat \<Rightarrow> bool" where
  "group_order lines a b =
     (snd a > snd b \<or> (snd a = snd b \<and> first_index lines (fst a) < first_index lines (fst b)))"

text \<open>A file with three duplicated lines and a duplicated line that is too short.\<close>

definition duplicates_example :: string where
  "duplicates_example =
     ''bbbbbbbbbb'' @ [newline] @ ''aaaaaaaaaa'' @ [newline] @ ''cccccccccc'' @ [newline]
     @ ''aaaaaaaaaa  '' @ [newline] @ ''cccccccccc'' @ [newline] @ ''bbbbbbbbbb'' @ [newline]
     @ ''cccccccccc'' @ [newline] @ ''short'' @ [newline] @ ''short'' @ [newline]"


text \<open>The tree without the regular files whose name contains no dot.\<close>

fun remove_dotless :: "node \<Rightarrow> node"
  and remove_dotless_entries :: "(string \<times> node) list \<Rightarrow> (string \<times> node) list"
  where
  "remove_dotless (File c) = File c"
| "remove_dotless (BrokenDir msg) = BrokenDir msg"
| "remove_dotless LockedDir = LockedDir"
| "remove_dotless (Dir es) = Dir (remove_dotless_entries es)"
| "remove_dotless_entries [] = []"
| "remove_dotless_entries ((n, x) # es) =
     (if is_file x \<and> CHR ''.'' \<notin> set n then remove_dotless_entries es
      else (n, remove_dotless x) # remove_dotless_entries es)"



section \<open>Properties\<close>

lemma sum_values_counter_add:
  "sum_values (counter_add k n kvs) = sum_values kvs + n"
  by (induction kvs) (auto simp: sum_values_def)

lemma count_file_balance:
  "sum_values (by_extension acc) = total_lines acc \<Longrightarrow>
   sum_values (by_extension (count_file extensions entry acc)) =
   total_lines (count_file extensions entry acc)"
  by (auto simp: count_file_def sum_values_counter_add Let_def
           split: prod.splits node.splits content.splits)

lemma count_loop_balance:
  "sum_values (by_extension acc) = total_lines acc \<Longrightarrow>
   sum_values (by_extension (count_loop extensions entries acc)) =
   total_lines (count_loop extensions entries acc)"
  by (induction entries arbitrary: acc) (simp_all add: count_file_balance)

lemma lookup_path_no_fault: "lookup_path fs p = Some x \<Longrightarrow> stat_fault fs p = None"
  by (induction fs p rule: lookup_path.induct) (auto split: if_splits option.splits)

lemma resolve_no_stat_error: "resolve fs p = Some x \<Longrightarrow> stat_error fs p = None"
  by (auto simp: resolve_def stat_error_def lookup_path_no_fault split: if_splits)


lemma rglob_all_not_dir:
  assumes "\<not> is_dir_path fs directory"
  shows "rglob_all fs directory = ([], stat_error fs directory)"
proof (cases "stat_error fs directory")
  case (Some e)
  then show ?thesis by (simp add: rglob_all_def)
next
  case None
  show ?thesis
  proof (cases "resolve fs directory")
    case None
    with \<open>stat_error fs directory = None\<close> show ?thesis by (simp add: rglob_all_def)
  next
    case (Some x)
    with assms \<open>stat_error fs directory = None\<close> show ?thesis
      by (cases x) (simp_all add: rglob_all_def is_dir_path_def)
  qed
qed

subsection \<open>C3: the total is the sum of the per-extension counts\<close>

text \<open>
  Claim C3. Whenever \<open>count_lines_of_code\<close> returns a summary, for any tree, root and
  extension filter, its \<open>total_lines\<close> equals the sum of the values of \<open>by_extension\<close>.
\<close>

theorem count_lines_total_is_sum:
  assumes "count_lines_of_code fs directory file_extensions = Inr summary"
  shows "sum_values (by_extension summary) = total_lines summary"
proof -
  obtain entries err where w: "rglob_all fs directory = (entries, err)"
    by (cases "rglob_all fs directory")
  with assms have
    "summary = count_loop (parse_extensions file_extensions) entries
                 \<lparr> total_files = 0, total_lines = 0, by_extension = [] \<rparr>"
    by (cases err) (auto simp: count_lines_of_code_def)
  moreover have
    "sum_values (by_extension \<lparr> total_files = 0, total_lines = 0, by_extension = [] \<rparr>)
     = total_lines \<lparr> total_files = 0, total_lines = 0,
                     by_extension = ([] :: (string \<times> nat) list) \<rparr>"
    by (simp add: sum_values_def)
  ultimately show ?thesis
    using count_loop_balance by blast
qed

theorem count_lines_total_is_sum_witness:
  "count_lines_of_code example_tree [] None =
     Inr \<lparr> total_files = 4, total_lines = 5,
           by_extension = [(''py'', 2), (''md'', 1), (''cpp'', 1), (''no extension'', 1)] \<rparr>
   \<and> sum_values [(''py'', 2), (''md'', 1), (''cpp'', 1), (''no extension'', 1::nat)] = 5"
proof -
  have e: "count_lines_of_code example_tree [] None =
     Inr \<lparr> total_files = 4, total_lines = 5,
           by_extension = [(''py'', 2), (''md'', 1), (''cpp'', 1), (''no extension'', 1)] \<rparr>"
    by code_simp
  from count_lines_total_is_sum [OF e] e show ?thesis by simp
qed

subsection \<open>C2: a root that is missing or is not a directory\<close>

text \<open>
  Claim C2 says that every tree-based operation answers a root that does not exist or is
  not a directory with an error. None of the four operations checks the root, and
  \<open>rglob\<close> yields nothing for such a root: on the example tree, searching below the
  missing directory \<open>nope\<close> returns the ordinary no-match message, which is not an error
  text.
\<close>

theorem missing_root_counterexample:
  "\<not> is_dir_path example_tree [''nope'']
   \<and> search_code literal_re ''foo'' example_tree [''nope''] None =
       (''No matches found for pattern '' @ quoted ''foo'', [])
   \<and> \<not> is_error_text (fst (search_code literal_re ''foo'' example_tree [''nope''] None))"
  by code_simp

text \<open>
  Claim C2, amended. For a root that is not a directory, what each tree-based operation
  returns depends on \<open>stat\<close> of the root alone. When \<open>stat\<close> does not raise (the root is
  missing, lies below a regular file, or is a regular file), the operation returns its
  ordinary empty result: \<open>search_code\<close> the no-match message (and opens no file),
  \<open>find_files\<close> the no-files message, \<open>count_lines_of_code\<close> the summary of zero files
  and zero lines, and \<open>find_todos\<close> the none-found message. When \<open>stat\<close> of the root
  raises (a name or path that is too long, a directory on the way that may not be
  searched), the operation returns the text of that error after its own \<open>Error ...:\<close>
  prefix. \<open>find_files\<close> reports a glob pattern that is rejected before either.
\<close>

theorem missing_root_gives_empty_result:
  assumes "\<not> is_dir_path fs directory"
  shows "search_code re pattern fs directory file_extensions =
           (case stat_error fs directory of
              None \<Rightarrow> (''No matches found for pattern '' @ quoted pattern, [])
            | Some e \<Rightarrow> (''Error searching code: '' @ e, []))
       \<and> find_files glob name_pattern fs directory =
           (case glob name_pattern of
              Inl msg \<Rightarrow> ''Error finding files: '' @ msg
            | Inr selects \<Rightarrow>
                (case stat_error fs directory of
                   None \<Rightarrow> ''No files found matching '' @ quoted name_pattern
                 | Some e \<Rightarrow> ''Error finding files: '' @ e))
       \<and> count_lines_of_code fs directory file_extensions =
           (case stat_error fs directory of
              None \<Rightarrow> Inr \<lparr> total_files = 0, total_lines = 0, by_extension = [] \<rparr>
            | Some e \<Rightarrow> Inl (''Error counting lines: '' @ e))
       \<and> find_todos fs directory =
           (case stat_error fs directory of
              None \<Rightarrow> ''No TODOs/FIXMEs found''
            | Some e \<Rightarrow> ''Error finding TODOs: '' @ e)"
  using rglob_all_not_dir [OF assms]
  by (simp add: search_code_def search_run_def find_files_def count_lines_of_code_def
        find_todos_def split: sum.splits option.splits)

theorem missing_root_gives_empty_result_witness:
  "\<not> is_dir_path example_tree [''nope'']
   \<and> \<not> is_dir_path example_tree [''a.py'']
   \<and> \<not> is_dir_path example_tree [long_name]
   \<and> \<not> is_dir_path locked_tree [''vault'', ''inner'']
   \<and> count_lines_of_code example_tree [''nope''] None =
           Inr \<lparr> total_files = 0, total_lines = 0, by_extension = [] \<rparr>
   \<and> find_todos example_tree [''a.py''] = ''No TODOs/FIXMEs found''
   \<and> search_code literal_re ''foo'' example_tree [long_name] None =
       (''Error searching code: [Errno 36] File name too long: '' @ quoted long_name, [])
   \<and> find_todos locked_tree [''vault'', ''inner''] =
       ''Error finding TODOs: [Errno 13] Permission denied: '' @ quoted ''vault/inner''"
proof -
  have a: "\<not> is_dir_path example_tree [''nope'']" by code_simp
  have b: "\<not> is_dir_path example_tree [''a.py'']" by code_simp
  have c: "\<not> is_dir_path example_tree [long_name]" by code_simp
  have d: "\<not> is_dir_path locked_tree [''vault'', ''inner'']" by code_simp
  have sa: "stat_error example_tree [''nope''] = None" by code_simp
  have sb: "stat_error example_tree [''a.py''] = None" by code_simp
  have sc: "stat_error example_tree [long_name] =
              Some (''[Errno 36] File name too long: '' @ quoted long_name)"
    by code_simp
  have sd: "stat_error locked_tree [''vault'', ''inner''] =
              Some (''[Errno 13] Permission denied: '' @ quoted ''vault/inner'')"
    by code_simp
  from missing_root_gives_empty_result [OF a] missing_root_gives_empty_result [OF b]
    missing_root_gives_empty_result [OF c] missing_root_gives_empty_result [OF d]
    a b c d sa sb sc sd
  show ?thesis by simp
qed

lemma search_lines_eq:
  "search_lines re pattern fp n lines results = results @ hits_from re pattern fp n lines"
proof (induction lines arbitrary: n results)
  case Nil
  then show ?case by (simp add: hits_from_def split: option.splits)
next
  case (Cons line rest)
  show ?case
  proof (cases "re pattern")
    case None
    then show ?thesis by (simp add: hits_from_def)
  next
    case (Some m)
    have "hits_from re pattern fp n (line # rest) =
            (if m line then [\<lparr> hit_path = fp, hit_line = n, hit_text = strip line \<rparr>] else [])
            @ hits_from re pattern fp (Suc n) rest"
      using Some by (simp add: hits_from_def)
    with Some Cons.IH show ?thesis by simp
  qed
qed

lemma search_file_eq:
  "search_file re pattern extensions entry st =
     (fst st @ entry_hits re pattern extensions entry,
      snd st @ (if candidate extensions entry then [fst entry] else []))"
  by (cases st)
     (auto simp: search_file_def entry_hits_def candidate_def search_lines_eq hits_from_def
           split: prod.splits node.splits content.splits)

lemma search_loop_eq:
  "search_loop re pattern extensions entries st =
     (fst st @ concat (map (entry_hits re pattern extensions) entries),
      snd st @ map fst (filter (candidate extensions) entries))"
  by (induction entries arbitrary: st) (simp_all add: search_file_eq)

lemma search_run_eq:
  "search_run re pattern fs directory file_extensions =
     ((concat (map (entry_hits re pattern (parse_extensions file_extensions))
                 (fst (rglob_all fs directory))),
       map fst (filter (candidate (parse_extensions file_extensions)) (fst (rglob_all fs directory)))),
      snd (rglob_all fs directory))"
  by (simp add: search_run_def search_loop_eq Let_def split: prod.splits)



subsection \<open>C1: an invalid pattern\<close>






lemma in_hits_from:
  assumes "h \<in> set (hits_from re pattern fp n lines)"
  shows "\<exists>matches i. re pattern = Some matches \<and> i < length lines \<and> matches (lines ! i)
           \<and> h = \<lparr> hit_path = fp, hit_line = n + i, hit_text = strip (lines ! i) \<rparr>"
proof (cases "re pattern")
  case None
  with assms show ?thesis by (simp add: hits_from_def)
next
  case (Some m)
  with assms obtain j line where jl: "(j, line) \<in> set (enumerate n lines)" "m line"
    and h: "h = \<lparr> hit_path = fp, hit_line = j, hit_text = strip line \<rparr>"
    by (auto simp: hits_from_def)
  from jl(1) have "n \<le> j" "j < length lines + n" "lines ! (j - n) = line"
    by (simp_all add: in_set_enumerate_eq)
  with jl(2) h Some show ?thesis
    by (intro exI [of _ m] exI [of _ "j - n"]) simp
qed

lemma in_entry_hits:
  assumes "h \<in> set (entry_hits re pattern extensions entry)"
  shows "\<exists>t matches i. entry = (hit_path h, File (Text t)) \<and> re pattern = Some matches
           \<and> i < length (readlines t) \<and> matches (readlines t ! i)
           \<and> hit_line h = Suc i \<and> hit_text h = strip (readlines t ! i)"
proof -
  from assms obtain fp t where e: "entry = (fp, File (Text t))"
    and h: "h \<in> set (hits_from re pattern fp 1 (readlines t))"
    by (auto simp: entry_hits_def split: prod.splits node.splits content.splits if_splits)
  from in_hits_from [OF h] e show ?thesis by auto
qed

lemma rstrip_eq_take: "rstrip s = take (length (rstrip s)) s"
proof -
  have "dropWhile isspace (rev s) = drop (length (takeWhile isspace (rev s))) (rev s)"
    by (rule dropWhile_eq_drop)
  then have "rstrip s = take (length s - length (takeWhile isspace (rev s))) s"
    by (simp add: rstrip_def drop_rev)
  then show ?thesis
    by (metis append_eq_conv_conj append_take_drop_id)
qed

lemma strip_no_leading_space: "strip s = [] \<or> \<not> isspace (hd (strip s))"
proof (cases "strip s = []")
  case True
  then show ?thesis by simp
next
  case False
  let ?t = "lstrip s"
  from False have ne: "rstrip ?t \<noteq> []" by (simp add: strip_def)
  then have t: "?t \<noteq> []" by (auto simp: rstrip_def)
  then have "\<not> isspace (hd ?t)"
    unfolding lstrip_def by (rule hd_dropWhile)
  moreover have "hd (rstrip ?t) = hd ?t"
    using ne rstrip_eq_take [of ?t] by (metis hd_take length_greater_0_conv)
  ultimately show ?thesis by (simp add: strip_def)
qed

subsection \<open>C6: the text of a hit\<close>

text \<open>
  Claim C6 says that a hit shows its line with only trailing whitespace removed, so that
  leading whitespace is kept. The code formats \<open>line.strip()\<close>: for the line
  \<open>"  Foo bar"\<close> the hit shows \<open>Foo bar\<close>, while removing trailing whitespace only
  would give \<open>"  Foo bar"\<close>.
\<close>

theorem search_hit_keeps_leading_space_counterexample:
  "fst (search_code literal_re ''foo'' (Dir [(''a.py'', File (Text (''  Foo bar'' @ [newline])))]) [] None)
     = ''a.py:1: Foo bar''
   \<and> rstrip (''  Foo bar'' @ [newline]) = ''  Foo bar''"
  by code_simp

text \<open>
  Claim C6, amended. Every hit of \<open>search_code\<close> names a walked file and the number of one
  of its lines that the pattern matches, and its text is that line with both leading and
  trailing whitespace removed; in particular the text of a hit never begins with
  whitespace.
\<close>

theorem search_hit_text_is_stripped_line:
  assumes "search_run re pattern fs directory file_extensions = ((results, opened), err)"
    and "h \<in> set results"
  shows "\<exists>t matches i. (hit_path h, File (Text t)) \<in> set (fst (rglob_all fs directory))
           \<and> re pattern = Some matches
           \<and> i < length (readlines t) \<and> hit_line h = i + 1
           \<and> matches (readlines t ! i)
           \<and> hit_text h = strip (readlines t ! i)
           \<and> (hit_text h = [] \<or> \<not> isspace (hd (hit_text h)))"
proof -
  from assms have "h \<in> set (concat (map (entry_hits re pattern (parse_extensions file_extensions))
                                     (fst (rglob_all fs directory))))"
    by (simp add: search_run_eq)
  then obtain entry where e: "entry \<in> set (fst (rglob_all fs directory))"
    and h: "h \<in> set (entry_hits re pattern (parse_extensions file_extensions) entry)"
    by auto
  from in_entry_hits [OF h] obtain t matches i where
    "entry = (hit_path h, File (Text t))" "re pattern = Some matches"
    "i < length (readlines t)" "matches (readlines t ! i)"
    "hit_line h = Suc i" "hit_text h = strip (readlines t ! i)"
    by blast
  with e strip_no_leading_space [of "readlines t ! i"] show ?thesis
    by (intro exI [of _ t] exI [of _ matches] exI [of _ i]) simp
qed

theorem search_hit_text_is_stripped_line_witness:
  "search_run literal_re ''foo'' example_tree [] (Some ''py'') =
     (([\<lparr> hit_path = [''a.py''], hit_line = 1, hit_text = ''Foo bar'' \<rparr>], [[''a.py'']]), None)
   \<and> (\<exists>t matches i. ([''a.py''], File (Text t)) \<in> set (fst (rglob_all example_tree []))
           \<and> literal_re ''foo'' = Some matches
           \<and> i < length (readlines t) \<and> (1::nat) = i + 1
           \<and> matches (readlines t ! i)
           \<and> ''Foo bar'' = strip (readlines t ! i))"
proof -
  have r: "search_run literal_re ''foo'' example_tree [] (Some ''py'') =
     (([\<lparr> hit_path = [''a.py''], hit_line = 1, hit_text = ''Foo bar'' \<rparr>], [[''a.py'']]), None)"
    by code_simp
  from search_hit_text_is_stripped_line [OF r, of "\<lparr> hit_path = [''a.py''], hit_line = 1, hit_text = ''Foo bar'' \<rparr>"]
    r show ?thesis by auto
qed

lemma sorted_hit_lines_from:
  "sorted_wrt (<) (map hit_line (hits_from re pattern fp n lines))"
proof (cases "re pattern")
  case None
  then show ?thesis by (simp add: hits_from_def)
next
  case (Some m)
  have "sorted_wrt (\<lambda>a b. fst a < fst b) (enumerate n lines)"
    by (simp flip: sorted_wrt_map)
  then have "sorted_wrt (\<lambda>a b. fst a < fst b) (filter (\<lambda>(i, line). m line) (enumerate n lines))"
    by (rule sorted_wrt_filter)
  then show ?thesis
    using Some by (simp add: hits_from_def sorted_wrt_map case_prod_beta)
qed

lemma sorted_hit_lines_entry:
  "sorted_wrt (<) (map hit_line (entry_hits re pattern extensions entry))"
  by (simp add: entry_hits_def sorted_hit_lines_from
           split: prod.splits node.splits content.splits)

lemma map_snd_tagged_hits:
  "map snd (tagged_hits re pattern extensions k entries) =
   concat (map (entry_hits re pattern extensions) entries)"
  by (induction entries arbitrary: k) (simp_all add: comp_def)

lemma tagged_hits_range:
  assumes "(j, h) \<in> set (tagged_hits re pattern extensions k entries)"
  shows "k \<le> j \<and> j < k + length entries \<and> fst (entries ! (j - k)) = hit_path h"
  using assms
proof (induction entries arbitrary: k)
  case Nil
  then show ?case by simp
next
  case (Cons entry rest)
  from Cons.prems consider
    (here) "j = k" "h \<in> set (entry_hits re pattern extensions entry)"
    | (later) "(j, h) \<in> set (tagged_hits re pattern extensions (Suc k) rest)"
    by auto
  then show ?case
  proof cases
    case here
    from in_entry_hits [OF here(2)] here(1) show ?thesis by auto
  next
    case later
    from Cons.IH [OF later] have "Suc k \<le> j" "j < Suc k + length rest"
      "fst (rest ! (j - Suc k)) = hit_path h" by simp_all
    then show ?thesis by (simp add: nth_Cons')
  qed
qed

lemma sorted_tagged_hits:
  "sorted_wrt visit_order
     (map (\<lambda>(j, h). (j, hit_line h)) (tagged_hits re pattern extensions k entries))"
proof (induction entries arbitrary: k)
  case Nil
  then show ?case by simp
next
  case (Cons entry rest)
  have a: "sorted_wrt visit_order
             (map (\<lambda>(j, h). (j, hit_line h)) (map (Pair k) (entry_hits re pattern extensions entry)))"
    using sorted_hit_lines_entry [of re pattern extensions entry]
    by (simp add: sorted_wrt_map visit_order_def)
  have b: "visit_order x y"
    if "x \<in> set (map (\<lambda>(j, h). (j, hit_line h)) (map (Pair k) (entry_hits re pattern extensions entry)))"
      and "y \<in> set (map (\<lambda>(j, h). (j, hit_line h)) (tagged_hits re pattern extensions (Suc k) rest))"
    for x y
  proof -
    from that(1) have "fst x = k" by auto
    moreover from that(2) obtain j h where "y = (j, hit_line h)"
      "(j, h) \<in> set (tagged_hits re pattern extensions (Suc k) rest)" by auto
    with tagged_hits_range have "Suc k \<le> fst y" by fastforce
    ultimately show ?thesis by (simp add: visit_order_def)
  qed
  from a b Cons.IH [of "Suc k"] show ?case
    by (simp only: tagged_hits.simps map_append sorted_wrt_append) blast
qed

lemma zip_take_tagged:
  "zip (take n (map fst T)) (map g (take n (map snd T))) = take n (map (\<lambda>(j, h). (j, g h)) T)"
  by (induction T arbitrary: n) (auto simp: take_Cons')

subsection \<open>C4: at most 100 hits, in visit order\<close>

text \<open>
  Claim C4. Whenever \<open>search_code\<close> returns hits, they are the first 100 of \<open>results\<close>
  at most, and they are ordered by the position of their file in the walk and, within one
  file, by ascending line number: each hit can be given the position \<open>ks ! j\<close> of a walked
  entry with the hit's path so that the pairs of position and line number increase
  strictly in the lexicographic order \<open>visit_order\<close>.
\<close>

theorem search_code_capped_and_ordered:
  assumes "search_run re pattern fs directory file_extensions = ((results, opened), None)"
    and "results \<noteq> []"
  shows "fst (search_code re pattern fs directory file_extensions) =
           join [newline] (map format_hit (take 100 results))
       \<and> length (take 100 results) \<le> 100
       \<and> (\<exists>ks. length ks = length (take 100 results)
              \<and> (\<forall>j < length ks.
                     ks ! j < length (fst (rglob_all fs directory))
                   \<and> fst (fst (rglob_all fs directory) ! (ks ! j)) = hit_path (take 100 results ! j))
              \<and> sorted_wrt visit_order (zip ks (map hit_line (take 100 results))))"
proof -
  let ?exts = "parse_extensions file_extensions"
  let ?entries = "fst (rglob_all fs directory)"
  let ?T = "tagged_hits re pattern ?exts 0 ?entries"
  let ?ks = "take 100 (map fst ?T)"
  from assms(1) have res: "results = map snd ?T"
    by (simp add: search_run_eq map_snd_tagged_hits)
  have out: "fst (search_code re pattern fs directory file_extensions) =
               join [newline] (map format_hit (take 100 results))"
    using assms by (simp add: search_code_def)
  have len: "length ?ks = length (take 100 results)"
    by (simp add: res)
  have rng: "?ks ! j < length ?entries
             \<and> fst (?entries ! (?ks ! j)) = hit_path (take 100 results ! j)"
    if "j < length ?ks" for j
  proof -
    from that have j: "j < length ?T" "j < 100" by simp_all
    then have "(fst (?T ! j), snd (?T ! j)) \<in> set ?T" by simp
    from tagged_hits_range [OF this] j show ?thesis by (simp add: res)
  qed
  have "zip ?ks (map hit_line (take 100 results)) =
          take 100 (map (\<lambda>(j, h). (j, hit_line h)) ?T)"
    unfolding res by (rule zip_take_tagged)
  then have srt: "sorted_wrt visit_order (zip ?ks (map hit_line (take 100 results)))"
    using sorted_tagged_hits [of re pattern ?exts 0 ?entries] by (simp add: sorted_wrt_take)
  from out len rng srt show ?thesis by (intro conjI exI [of _ ?ks]) simp_all
qed


theorem search_code_capped_and_ordered_witness:
  "search_run literal_re ''foo'' example_tree [] None =
     (([\<lparr> hit_path = [''a.py''], hit_line = 1, hit_text = ''Foo bar'' \<rparr>,
        \<lparr> hit_path = [''sub'', ''README''], hit_line = 1, hit_text = ''foo'' \<rparr>],
       [[''a.py''], [''c.md''], [''sub'', ''b.cpp''], [''sub'', ''README'']]), None)
   \<and> fst (search_code literal_re ''foo'' example_tree [] None) =
       ''a.py:1: Foo bar'' @ [newline] @ ''sub/README:1: foo''
   \<and> (\<exists>ks. length ks = 2 \<and> sorted_wrt visit_order (zip ks [1, 1]))"
proof -
  have r: "search_run literal_re ''foo'' example_tree [] None =
     (([\<lparr> hit_path = [''a.py''], hit_line = 1, hit_text = ''Foo bar'' \<rparr>,
        \<lparr> hit_path = [''sub'', ''README''], hit_line = 1, hit_text = ''foo'' \<rparr>],
       [[''a.py''], [''c.md''], [''sub'', ''b.cpp''], [''sub'', ''README'']]), None)"
    by code_simp
  have f: "join [newline] (map format_hit
             [\<lparr> hit_path = [''a.py''], hit_line = 1, hit_text = ''Foo bar'' \<rparr>,
              \<lparr> hit_path = [''sub'', ''README''], hit_line = 1, hit_text = ''foo'' \<rparr>])
           = ''a.py:1: Foo bar'' @ [newline] @ ''sub/README:1: foo''"
    by code_simp
  note th = search_code_capped_and_ordered [OF r]
  from th f have out: "fst (search_code literal_re ''foo'' example_tree [] None) =
       ''a.py:1: Foo bar'' @ [newline] @ ''sub/README:1: foo''"
    by simp
  from th obtain ks where "length ks = 2" "sorted_wrt visit_order (zip ks [1, 1])"
    by (auto simp: numeral_2_eq_2)
  with r out show ?thesis by blast
qed







subsection \<open>C8: a marker in a C++ file and in a Markdown file\<close>



lemma open_file_text:
  "resolve fs p = Some (File (Text t)) \<Longrightarrow>
   stat_error fs p = None \<and> exists_path fs p \<and> open_file fs p = Inr t"
  by (simp add: exists_path_def open_file_def resolve_no_stat_error)

subsection \<open>C9: the import lines of the example file\<close>

text \<open>
  Claim C9. For a file whose lines are \<open>import os\<close>, \<open>    x = 1\<close> and
  \<open>from foo import bar\<close> (the last one with or without a final newline),
  \<open>extract_imports\<close> returns exactly the two lines \<open>import os\<close> and
  \<open>from foo import bar\<close>, in this order.
\<close>

theorem extract_imports_example:
  assumes "resolve fs file_path = Some (File (Text text))"
    and "text = import_example \<or> text = import_example @ [newline]"
  shows "extract_imports fs file_path = ''import os'' @ [newline] @ ''from foo import bar''"
proof -
  have "import_lines (readlines import_example) [] = [''import os'', ''from foo import bar'']"
       "import_lines (readlines (import_example @ [newline])) [] = [''import os'', ''from foo import bar'']"
    by code_simp+
  with assms(2) have "import_lines (readlines text) [] = [''import os'', ''from foo import bar'']"
    by auto
  with open_file_text [OF assms(1)] show ?thesis
    by (simp add: extract_imports_def)
qed

theorem extract_imports_example_witness:
  "extract_imports (Dir [(''m.py'', File (Text import_example))]) [''m.py'']
     = ''import os'' @ [newline] @ ''from foo import bar''"
proof -
  have a: "resolve (Dir [(''m.py'', File (Text import_example))]) [''m.py''] = Some (File (Text import_example))"
    by code_simp
  have b: "import_example = import_example \<or> import_example = import_example @ [newline]"
    by simp
  from extract_imports_example [OF a b] show ?thesis .
qed

lemma format_group_eq:
  "format_group = (\<lambda>(line, count). ''('' @ str_nat count @ ''x) '' @ take 80 line @ ''...'')"
  by (auto simp: fun_eq_iff format_group_def)

subsection \<open>C7: the display of a duplicated line\<close>

text \<open>
  Claim C7 says that the cut-off indicator is shown exactly when the line is longer than 80
  characters. \<open>find_duplicate_lines\<close> appends \<open>...\<close> to every group: a line of ten
  characters that occurs twice is displayed as \<open>(2x) 0123456789...\<close>.
\<close>

theorem duplicate_marker_on_short_line_counterexample:
  "length ''0123456789'' \<le> 80
   \<and> find_duplicate_lines (Dir [(''f.txt'', File (Text short_duplicates))]) [''f.txt''] 10
       = ''(2x) 0123456789...''"
  by code_simp

text \<open>
  Claim C7, amended. Each group is displayed as its count, then the first 80 characters of
  its line, then the indicator \<open>...\<close>; the indicator follows every displayed line,
  whether or not the line is longer than 80 characters.
\<close>

theorem duplicate_display_always_marked:
  assumes "resolve fs file_path = Some (File (Text text))"
    and "duplicate_groups text min_length \<noteq> []"
  shows "find_duplicate_lines fs file_path min_length =
           join [newline]
             (map (\<lambda>(line, count). ''('' @ str_nat count @ ''x) '' @ take 80 line @ ''...'')
                (take 20 (duplicate_groups text min_length)))"
proof -
  have "find_duplicate_lines fs file_path min_length =
          join [newline] (map format_group (take 20 (duplicate_groups text min_length)))"
    using assms(2) open_file_text [OF assms(1)]
    by (simp add: find_duplicate_lines_def take_map)
  then show ?thesis
    by (simp only: format_group_eq)
qed

theorem duplicate_display_always_marked_witness:
  "duplicate_groups short_duplicates 10 = [(''0123456789'', 2)]
   \<and> find_duplicate_lines (Dir [(''f.txt'', File (Text short_duplicates))]) [''f.txt''] 10 =
       ''('' @ str_nat 2 @ ''x) '' @ take 80 ''0123456789'' @ ''...''"
proof -
  have a: "resolve (Dir [(''f.txt'', File (Text short_duplicates))]) [''f.txt'']
             = Some (File (Text short_duplicates))"
    by code_simp
  have g: "duplicate_groups short_duplicates 10 = [(''0123456789'', 2)]"
    by code_simp
  then have b: "duplicate_groups short_duplicates 10 \<noteq> []" by simp
  from duplicate_display_always_marked [OF a b] g show ?thesis by simp
qed

lemma counter_of_acc_snoc:
  "counter_of_acc (xs @ [x]) acc = counter_add x 1 (counter_of_acc xs acc)"
  by (induction xs arbitrary: acc) simp_all

lemma counter_of_snoc: "counter_of (xs @ [x]) = counter_add x 1 (counter_of xs)"
  by (simp add: counter_of_def counter_of_acc_snoc)

lemma keys_counter_add:
  "map fst (counter_add k n kvs) =
     (if k \<in> fst ` set kvs then map fst kvs else map fst kvs @ [k])"
  by (induction kvs) force+

lemma map_of_counter_add:
  "map_of (counter_add k n kvs) =
     (map_of kvs)(k \<mapsto> (case map_of kvs k of None \<Rightarrow> n | Some v \<Rightarrow> v + n))"
  by (induction kvs) (auto simp: fun_eq_iff)

lemma key_set_counter_add: "fst ` set (counter_add k n kvs) = insert k (fst ` set kvs)"
proof -
  have "set (map fst (counter_add k n kvs)) = insert k (set (map fst kvs))"
    unfolding keys_counter_add by auto
  then show ?thesis by simp
qed

lemma keys_counter_of: "fst ` set (counter_of xs) = set xs"
proof (induction xs rule: rev_induct)
  case Nil
  then show ?case by (simp add: counter_of_def)
next
  case (snoc x xs)
  then show ?case by (simp add: counter_of_snoc key_set_counter_add)
qed

lemma distinct_keys_counter_of: "distinct (map fst (counter_of xs))"
proof (induction xs rule: rev_induct)
  case Nil
  then show ?case by (simp add: counter_of_def)
next
  case (snoc x xs)
  then show ?case by (simp add: counter_of_snoc keys_counter_add)
qed

lemma map_of_counter_of:
  "map_of (counter_of xs) k = (if k \<in> set xs then Some (count_list xs k) else None)"
proof (induction xs rule: rev_induct)
  case Nil
  then show ?case by (simp add: counter_of_def)
next
  case (snoc x xs)
  then show ?case
    by (auto simp: counter_of_snoc map_of_counter_add split: option.splits if_splits)
qed

lemma counter_of_counts:
  assumes "(k, c) \<in> set (counter_of xs)"
  shows "c = count_list xs k"
proof -
  from assms have "map_of (counter_of xs) k = Some c"
    by (simp add: distinct_keys_counter_of)
  then show ?thesis
    by (simp add: map_of_counter_of split: if_splits)
qed

lemma first_index_snoc_old: "a \<in> set xs \<Longrightarrow> first_index (xs @ [x]) a = first_index xs a"
  by (simp add: first_index_def takeWhile_append1)

lemma first_index_snoc_new: "x \<notin> set xs \<Longrightarrow> first_index (xs @ [x]) x = length xs"
  unfolding first_index_def by (induction xs) auto

lemma first_index_less: "a \<in> set xs \<Longrightarrow> first_index xs a < length xs"
  unfolding first_index_def by (induction xs) auto

lemma keys_counter_of_ordered:
  "sorted_wrt (\<lambda>a b. first_index xs a < first_index xs b) (map fst (counter_of xs))"
proof (induction xs rule: rev_induct)
  case Nil
  then show ?case by (simp add: counter_of_def)
next
  case (snoc x xs)
  let ?keys = "map fst (counter_of xs)"
  have old: "sorted_wrt (\<lambda>a b. first_index (xs @ [x]) a < first_index (xs @ [x]) b) ?keys"
  proof (rule sorted_wrt_mono_rel [OF _ snoc.IH])
    fix a b
    assume "a \<in> set ?keys" "b \<in> set ?keys" "first_index xs a < first_index xs b"
    then show "first_index (xs @ [x]) a < first_index (xs @ [x]) b"
      by (simp add: keys_counter_of first_index_snoc_old)
  qed
  show ?case
  proof (cases "x \<in> set xs")
    case True
    with old show ?thesis
      by (simp add: counter_of_snoc keys_counter_add keys_counter_of)
  next
    case False
    have "first_index (xs @ [x]) a < first_index (xs @ [x]) x" if "a \<in> set ?keys" for a
      using that False
      by (simp add: keys_counter_of first_index_snoc_old first_index_snoc_new first_index_less)
    with old False show ?thesis
      by (simp add: counter_of_snoc keys_counter_add keys_counter_of sorted_wrt_append)
  qed
qed

lemma sorted_wrt_conj:
  "sorted_wrt (\<lambda>a b. P a b \<and> Q a b) xs \<longleftrightarrow> sorted_wrt P xs \<and> sorted_wrt Q xs"
  by (induction xs) auto

lemma sorted_wrt_within_keys:
  assumes "\<And>k. sorted_wrt R (filter (\<lambda>y. f y = k) xs)"
  shows "sorted_wrt (\<lambda>a b. f a = f b \<longrightarrow> R a b) xs"
  using assms
proof (induction xs)
  case Nil
  then show ?case by simp
next
  case (Cons a xs)
  have tail: "sorted_wrt R (filter (\<lambda>y. f y = k) xs)" for k
    using Cons.prems [of k] by (cases "f a = k") simp_all
  have "R a b" if "b \<in> set xs" "f a = f b" for b
    using Cons.prems [of "f a"] that by simp
  with Cons.IH [OF tail] show ?case by simp
qed

lemma sort_key_stable_order:
  fixes f :: "'a \<Rightarrow> int"
  assumes "sorted_wrt R xs"
  shows "sorted_wrt (\<lambda>a b. f a \<le> f b \<and> (f a = f b \<longrightarrow> R a b)) (sort_key f xs)"
proof -
  have "sorted (map f (sort_key f xs))" by simp
  then have 1: "sorted_wrt (\<lambda>a b. f a \<le> f b) (sort_key f xs)"
    by (simp add: sorted_map)
  have "sorted_wrt R (filter (\<lambda>y. f y = k) (sort_key f xs))" for k
    using assms by (simp add: sort_key_stable sorted_wrt_filter)
  then have 2: "sorted_wrt (\<lambda>a b. f a = f b \<longrightarrow> R a b) (sort_key f xs)"
    by (rule sorted_wrt_within_keys)
  from 1 2 show ?thesis by (simp add: sorted_wrt_conj)
qed

lemma duplicate_groups_ordered:
  "sorted_wrt (group_order (candidate_lines text min_length)) (duplicate_groups text min_length)"
proof -
  let ?lines = "candidate_lines text min_length"
  let ?R = "\<lambda>a b. first_index ?lines (fst a) < first_index ?lines (fst b)"
  have "sorted_wrt ?R (counter_of ?lines)"
    using keys_counter_of_ordered [of ?lines] by (simp add: sorted_wrt_map)
  then have "sorted_wrt ?R (filter (\<lambda>(line, count). count > 1) (counter_of ?lines))"
    by (rule sorted_wrt_filter)
  from sort_key_stable_order [OF this, of "\<lambda>x. - int (snd x)"]
  have "sorted_wrt (\<lambda>a b. - int (snd a) \<le> - int (snd b) \<and> (- int (snd a) = - int (snd b) \<longrightarrow> ?R a b))
          (duplicate_groups text min_length)"
    by (simp add: duplicate_groups_def sorted_by_count_desc_def)
  then show ?thesis
    by (rule sorted_wrt_mono_rel [rotated]) (auto simp: group_order_def)
qed

lemma duplicate_groups_counts:
  assumes "(line, count) \<in> set (duplicate_groups text min_length)"
  shows "count > 1 \<and> count = count_list (candidate_lines text min_length) line"
  using assms counter_of_counts
  by (auto simp: duplicate_groups_def sorted_by_count_desc_def)

subsection \<open>C5: at most 20 groups, all duplicated, by descending count\<close>

text \<open>
  Claim C5. Whenever \<open>find_duplicate_lines\<close> reports groups, it reports at most 20; each
  reported group has a count greater than 1, which is the number of occurrences of its line
  among the candidate lines; and the groups are ordered by descending count, groups of
  equal count by the first occurrence of their line in the file.
\<close>

theorem find_duplicates_capped_filtered_ordered:
  assumes "resolve fs file_path = Some (File (Text text))"
    and "duplicate_groups text min_length \<noteq> []"
  shows "find_duplicate_lines fs file_path min_length =
           join [newline] (map format_group (take 20 (duplicate_groups text min_length)))
       \<and> length (take 20 (duplicate_groups text min_length)) \<le> 20
       \<and> (\<forall>(line, count) \<in> set (take 20 (duplicate_groups text min_length)).
             count > 1 \<and> count = count_list (candidate_lines text min_length) line)
       \<and> sorted_wrt (group_order (candidate_lines text min_length))
             (take 20 (duplicate_groups text min_length))"
proof -
  have out: "find_duplicate_lines fs file_path min_length =
          join [newline] (map format_group (take 20 (duplicate_groups text min_length)))"
    using assms(2) open_file_text [OF assms(1)]
    by (simp add: find_duplicate_lines_def take_map)
  have cnt: "count > 1 \<and> count = count_list (candidate_lines text min_length) line"
    if "(line, count) \<in> set (take 20 (duplicate_groups text min_length))" for line count
    using that duplicate_groups_counts [of line count "text" min_length]
    by (blast dest: in_set_takeD)
  have ord: "sorted_wrt (group_order (candidate_lines text min_length))
               (take 20 (duplicate_groups text min_length))"
    using duplicate_groups_ordered by (rule sorted_wrt_take)
  from out cnt ord show ?thesis by auto
qed

theorem find_duplicates_capped_filtered_ordered_witness:
  "duplicate_groups duplicates_example 10 =
     [(''cccccccccc'', 3), (''bbbbbbbbbb'', 2), (''aaaaaaaaaa'', 2)]
   \<and> find_duplicate_lines (Dir [(''f.txt'', File (Text duplicates_example))]) [''f.txt''] 10 =
       ''(3x) cccccccccc...'' @ [newline] @ ''(2x) bbbbbbbbbb...'' @ [newline] @ ''(2x) aaaaaaaaaa...''
   \<and> sorted_wrt (group_order (candidate_lines duplicates_example 10))
        [(''cccccccccc'', 3), (''bbbbbbbbbb'', 2), (''aaaaaaaaaa'', 2)]"
proof -
  have a: "resolve (Dir [(''f.txt'', File (Text duplicates_example))]) [''f.txt'']
             = Some (File (Text duplicates_example))"
    by code_simp
  have g: "duplicate_groups duplicates_example 10 =
             [(''cccccccccc'', 3), (''bbbbbbbbbb'', 2), (''aaaaaaaaaa'', 2)]"
    by code_simp
  then have b: "duplicate_groups duplicates_example 10 \<noteq> []" by simp
  have f: "join [newline] (map format_group [(''cccccccccc'', 3), (''bbbbbbbbbb'', 2), (''aaaaaaaaaa'', 2)])
           = ''(3x) cccccccccc...'' @ [newline] @ ''(2x) bbbbbbbbbb...'' @ [newline] @ ''(2x) aaaaaaaaaa...''"
    by code_simp
  note th = find_duplicates_capped_filtered_ordered [OF a b]
  from th g f have 1: "find_duplicate_lines (Dir [(''f.txt'', File (Text duplicates_example))]) [''f.txt''] 10 =
       ''(3x) cccccccccc...'' @ [newline] @ ''(2x) bbbbbbbbbb...'' @ [newline] @ ''(2x) aaaaaaaaaa...''"
    by simp
  from th g have 2: "sorted_wrt (group_order (candidate_lines duplicates_example 10))
        [(''cccccccccc'', 3), (''bbbbbbbbbb'', 2), (''aaaaaaaaaa'', 2)]"
    by simp
  from g 1 2 show ?thesis by blast
qed

lemma is_dir_remove_dotless [simp]: "is_dir (remove_dotless x) = is_dir x"
  by (cases x) simp_all

lemma is_file_remove_dotless [simp]: "is_file (remove_dotless x) = is_file x"
  by (cases x) simp_all



















subsection \<open>C10: files without a dot in their name under an extension filter\<close>



text \<open>
  The entries of the filter are those of the list the code builds, after \<open>strip()\<close>. An
  entry of the comma-separated argument that consists of whitespace only becomes the empty
  entry, and then the files without a suffix pass the filter.
\<close>

lemma blank_filter_entry_example:
  "parse_extensions (Some ''py, '') = Some [''py'', []]
   \<and> search_code literal_re ''foo'' example_tree [] (Some ''py, '') =
       (''a.py:1: Foo bar'' @ [newline] @ ''sub/README:1: foo'',
        [[''a.py''], [''sub'', ''README'']])"
  by code_simp

end
